theory Spec2Isabelle
  imports Main
begin

section \<open>Text primitives of the Python runtime\<close>

text \<open>
  The server in \<open>starter/server.py\<close> works on Python \<open>str\<close> values. They are modelled as
  \<open>string\<close> (a list of 8-bit characters), so the model covers text whose code points lie
  below 256; the line boundaries and the white space of the Python runtime are taken as
  they are in that range.
\<close>

definition is_linebreak :: "char \<Rightarrow> bool" where
  \<comment> \<open>the line boundaries of \<open>str.splitlines\<close> other than the pair CR LF\<close>
  "is_linebreak c \<longleftrightarrow>
     c \<in> set [CHR 0x0A, CHR 0x0D, CHR 0x0B, CHR 0x0C, CHR 0x1C, CHR 0x1D, CHR 0x1E, CHR 0x85]"

definition isspace :: "char \<Rightarrow> bool" where
  \<comment> \<open>\<open>str.isspace\<close> on one character; also the class \<open>\s\<close> of \<open>re\<close> on \<open>str\<close> patterns\<close>
  "isspace c \<longleftrightarrow>
     c \<in> set [CHR 0x09, CHR 0x0A, CHR 0x0B, CHR 0x0C, CHR 0x0D, CHR 0x1C, CHR 0x1D, CHR 0x1E,
              CHR 0x1F, CHR 0x20, CHR 0x85, CHR 0xA0]"

definition isdigit :: "char \<Rightarrow> bool" where
  \<comment> \<open>the class \<open>\d\<close> of \<open>re\<close>: the decimal digits below code point 256\<close>
  "isdigit c \<longleftrightarrow> c \<in> set ''0123456789''"

fun splitlines_from :: "string \<Rightarrow> string \<Rightarrow> string list" where
  \<comment> \<open>first argument: the current line, reversed\<close>
  "splitlines_from cur [] = (if cur = [] then [] else [rev cur])"
| "splitlines_from cur (x # xs) =
     (if x = CHR 0x0D \<and> xs \<noteq> [] \<and> hd xs = CHR 0x0A then rev cur # splitlines_from [] (tl xs)
      else if is_linebreak x then rev cur # splitlines_from [] xs
      else splitlines_from (x # cur) xs)"

definition splitlines :: "string \<Rightarrow> string list" where
  \<comment> \<open>\<open>s.splitlines()\<close>: no line ends kept, no empty last line after a final boundary\<close>
  "splitlines s = splitlines_from [] s"

definition strip :: "string \<Rightarrow> string" where
  \<comment> \<open>\<open>s.strip()\<close>\<close>
  "strip s = rev (dropWhile isspace (rev (dropWhile isspace s)))"

fun split_on :: "char \<Rightarrow> string \<Rightarrow> string list" where
  \<comment> \<open>\<open>s.split(sep)\<close> for a separator of one character: empty fields are kept\<close>
  "split_on sep [] = [[]]"
| "split_on sep (x # xs) =
     (if x = sep then [] # split_on sep xs
      else (x # hd (split_on sep xs)) # tl (split_on sep xs))"

fun join :: "string \<Rightarrow> string list \<Rightarrow> string" where
  \<comment> \<open>\<open>sep.join(xs)\<close>\<close>
  "join sep [] = []"
| "join sep [x] = x"
| "join sep (x # y # ys) = x @ sep @ join sep (y # ys)"

definition py_slice_to :: "int \<Rightarrow> 'a list \<Rightarrow> 'a list" where
  \<comment> \<open>\<open>xs[:m]\<close>: a negative bound counts from the end\<close>
  "py_slice_to m xs =
     (if 0 \<le> m then take (nat m) xs else take (length xs - nat (- m)) xs)"

fun str_nat :: "nat \<Rightarrow> string" where
  "str_nat n =
     (if n < 10 then [''0123456789'' ! n] else str_nat (n div 10) @ [''0123456789'' ! (n mod 10)])"

declare str_nat.simps [simp del]

definition str_int :: "int \<Rightarrow> string" where
  \<comment> \<open>\<open>str(i)\<close>, as an f-string formats an \<open>int\<close>\<close>
  "str_int i = (if i < 0 then CHR ''-'' # str_nat (nat (- i)) else str_nat (nat i))"

definition digit_val :: "char \<Rightarrow> nat" where
  "digit_val c = of_char c - 48"

definition int_of_digits :: "string \<Rightarrow> int" where
  \<comment> \<open>\<open>int(s)\<close> on a string of decimal digits\<close>
  "int_of_digits s = int (foldl (\<lambda>acc c. 10 * acc + digit_val c) 0 s)"

section \<open>The regular expressions of the statistics parser\<close>

text \<open>
  The three patterns of the source are sequences of one-character atoms, each taken
  once, optionally (\<open>?\<close>) or one or more times (\<open>+\<close>); the only group is the first
  item. \<open>match_items\<close> is the backtracking matcher of \<open>re\<close> on such a sequence: a
  quantified item first takes as much as it can and gives back on failure. It returns the
  text consumed by each item.
\<close>

datatype atom = Digit | Space | Lit char

datatype quant = Once | Opt | Plus

type_synonym item = "atom \<times> quant"

fun accepts :: "atom \<Rightarrow> char \<Rightarrow> bool" where
  "accepts Digit c = isdigit c"
| "accepts Space c = isspace c"
| "accepts (Lit l) c = (c = l)"

fun match_items :: "item list \<Rightarrow> string \<Rightarrow> string list option" where
  "match_items [] s = Some []"
| "match_items ((a, Once) # ps) [] = None"
| "match_items ((a, Once) # ps) (x # xs) =
     (if accepts a x then map_option (Cons [x]) (match_items ps xs) else None)"
| "match_items ((a, Opt) # ps) [] = map_option (Cons []) (match_items ps [])"
| "match_items ((a, Opt) # ps) (x # xs) =
     (if accepts a x then
        (case match_items ps xs of
           Some rs \<Rightarrow> Some ([x] # rs)
         | None \<Rightarrow> map_option (Cons []) (match_items ps (x # xs)))
      else map_option (Cons []) (match_items ps (x # xs)))"
| "match_items ((a, Plus) # ps) [] = None"
| "match_items ((a, Plus) # ps) (x # xs) =
     (if accepts a x then
        (case match_items ((a, Plus) # ps) xs of
           Some (r # rs) \<Rightarrow> Some ((x # r) # rs)
         | _ \<Rightarrow> map_option (Cons [x]) (match_items ps xs))
      else None)"

fun re_search :: "item list \<Rightarrow> string \<Rightarrow> string list option" where
  \<comment> \<open>\<open>re.search\<close>: the match at the leftmost position that has one\<close>
  "re_search ps [] = match_items ps []"
| "re_search ps (x # xs) =
     (case match_items ps (x # xs) of Some rs \<Rightarrow> Some rs | None \<Rightarrow> re_search ps xs)"

definition lits :: "string \<Rightarrow> item list" where
  "lits s = map (\<lambda>c. (Lit c, Once)) s"

definition files_re :: "item list" where
  \<comment> \<open>\<open>(\d+)\s+files?\s+changed\<close>\<close>
  "files_re = [(Digit, Plus), (Space, Plus)] @ lits ''file'' @ [(Lit CHR ''s'', Opt), (Space, Plus)]
     @ lits ''changed''"

definition insertions_re :: "item list" where
  \<comment> \<open>\<open>(\d+)\s+insertions?\(\+\)\<close>\<close>
  "insertions_re = [(Digit, Plus), (Space, Plus)] @ lits ''insertion'' @ [(Lit CHR ''s'', Opt)]
     @ lits ''(+)''"

definition deletions_re :: "item list" where
  \<comment> \<open>\<open>(\d+)\s+deletions?\(-\)\<close>\<close>
  "deletions_re = [(Digit, Plus), (Space, Plus)] @ lits ''deletion'' @ [(Lit CHR ''s'', Opt)]
     @ lits ''(-)''"

definition count_of :: "item list \<Rightarrow> string \<Rightarrow> int" where
  \<comment> \<open>\<open>m = re.search(p, numstat)\<close>, then \<open>int(m.group(1))\<close> if \<open>m\<close>, else the initial 0\<close>
  "count_of p numstat =
     (case re_search p numstat of Some (g # _) \<Rightarrow> int_of_digits g | _ \<Rightarrow> 0)"

section \<open>The documents and the steps of \<open>analyze_file_changes\<close>\<close>

datatype json = JNull | JBool bool | JInt int | JStr string | JArr "json list"
  | JObj "(string \<times> json) list"

record summary =
  files :: int
  insertions :: int
  deletions :: int

record change_record =
  path :: string
  status :: string

definition parse_shortstat :: "string \<Rightarrow> summary" where
  \<comment> \<open>step 5, from the standard output of \<open>git diff --shortstat\<close>\<close>
  "parse_shortstat out =
     (let numstat = strip out
      in \<lparr>files = count_of files_re numstat,
          insertions = count_of insertions_re numstat,
          deletions = count_of deletions_re numstat\<rparr>)"

definition parse_name_status :: "string \<Rightarrow> change_record list" where
  \<comment> \<open>step 4, from the standard output of \<open>git diff --name-status\<close>\<close>
  "parse_name_status name_status =
     map (\<lambda>line. let parts = split_on (CHR 0x09) line
                 in \<lparr>path = last parts, status = hd parts\<rparr>)
       (filter (\<lambda>line. strip line \<noteq> []) (splitlines name_status))"

definition truncation_marker :: "int \<Rightarrow> string" where
  "truncation_marker max_diff_lines =
     [CHR 0x0A] @ ''--- Diff truncated at '' @ str_int max_diff_lines @ '' lines ---''"

definition bound_diff :: "int \<Rightarrow> string \<Rightarrow> string \<times> bool" where
  \<comment> \<open>step 6 after the diff is fetched: the values stored under \<open>diff\<close> and \<open>truncated\<close>\<close>
  "bound_diff max_diff_lines full_diff =
     (let lines = splitlines full_diff
      in if int (length lines) > max_diff_lines
         then (join [CHR 0x0A] (py_slice_to max_diff_lines lines @ [truncation_marker max_diff_lines]),
               True)
         else (join [CHR 0x0A] lines, False))"

section \<open>The environment: the host session and the git executable\<close>

text \<open>
  The exceptions the operation can meet. A subclass counts as the class the source names
  (\<open>UnicodeDecodeError\<close> is a \<open>ValueError\<close>); \<open>OtherError\<close> stands for every exception
  class that no handler of the source names.
\<close>

datatype exn =
    CalledProcessError "string list" string  \<comment> \<open>\<open>cmd\<close> and \<open>stderr\<close>\<close>
  | FileNotFoundError
  | ValueError
  | AttributeError
  | OtherError string

text \<open>
  What starting the executable leads to. With \<open>text=True\<close> the captured streams are decoded
  once the process has ended and before \<open>check=True\<close> looks at the return code, so a process
  whose output is not text in the encoding of the locale ends in \<open>UnicodeDecodeError\<close>,
  whatever its return code.
\<close>

datatype proc_outcome =
    Exited int string string  \<comment> \<open>return code, standard output, standard error, both decoded\<close>
  | Exited_undecoded int  \<comment> \<open>return code of a process whose output does not decode\<close>
  | Not_started exn  \<comment> \<open>\<open>subprocess.run\<close> raised before there was a process\<close>

record completed_process =
  args :: "string list"
  returncode :: int
  stdout :: string
  stderr :: string

record env =
  roots_lookup :: "exn + string option list"
    \<comment> \<open>\<open>mcp.get_context()\<close>, \<open>context.session.list_roots()\<close> and the \<open>uri.path\<close> of each root:
       the exception raised on the way, or the paths\<close>
  git_exec :: "string option \<Rightarrow> string list \<Rightarrow> proc_outcome"
    \<comment> \<open>the executable started in a working directory (\<open>None\<close>: that of the process) with an
       argument vector\<close>

type_synonym call_log = "(string option \<times> string list \<times> proc_outcome) list"
  \<comment> \<open>working directory, argument vector and outcome of each call, in order\<close>

type_synonym 'a run = "call_log \<Rightarrow> (exn + 'a) \<times> call_log"

definition and_then :: "'a run \<Rightarrow> ('a \<Rightarrow> 'b run) \<Rightarrow> 'b run" where
  \<comment> \<open>sequencing: an exception skips what follows\<close>
  "and_then m f log = (case m log of (Inl e, log') \<Rightarrow> (Inl e, log') | (Inr a, log') \<Rightarrow> f a log')"

definition returns :: "'a \<Rightarrow> 'a run" where
  "returns a log = (Inr a, log)"

definition resolve_working_dir :: "env \<Rightarrow> bool \<Rightarrow> exn + string option" where
  \<comment> \<open>step 1; \<open>None\<close> is the directory of the process\<close>
  "resolve_working_dir E cwd_from_root =
     (if cwd_from_root then
        (case roots_lookup E of
           Inr roots \<Rightarrow> (if roots \<noteq> [] then Inr (hd roots) else Inr None)
         | Inl e \<Rightarrow> (if e = ValueError \<or> e = AttributeError then Inr None else Inl e))
      else Inr None)"

definition run_git :: "env \<Rightarrow> string option \<Rightarrow> string list \<Rightarrow> completed_process run" where
  \<comment> \<open>\<open>subprocess.run(["git"] + args, cwd=working_dir, capture_output=True, text=True,
     check=True)\<close>; every call is written to the log\<close>
  "run_git E working_dir arguments log =
     (let argv = ''git'' # arguments;
          r = git_exec E working_dir argv;
          log' = log @ [(working_dir, argv, r)]
      in case r of
           Not_started e \<Rightarrow> (Inl e, log')
         | Exited_undecoded rc \<Rightarrow> (Inl ValueError, log')
         | Exited rc out err \<Rightarrow>
             (if rc \<noteq> 0 then (Inl (CalledProcessError argv err), log')
              else (Inr \<lparr>args = argv, returncode = rc, stdout = out, stderr = err\<rparr>, log')))"

definition changed_files_json :: "change_record list \<Rightarrow> json" where
  "changed_files_json cs = JArr (map (\<lambda>c. JObj [(''path'', JStr (path c)), (''status'', JStr (status c))]) cs)"

definition summary_json :: "summary \<Rightarrow> json" where
  "summary_json s = JObj [(''files'', JInt (files s)), (''insertions'', JInt (insertions s)),
     (''deletions'', JInt (deletions s))]"

definition range_spec :: "string \<Rightarrow> string" where
  "range_spec base_branch = base_branch @ ''...HEAD''"

definition extra :: "string \<Rightarrow> string list" where
  "extra pathspec = (if pathspec \<noteq> [] then [pathspec] else [])"

definition diff_scope :: "string \<Rightarrow> string list" where
  \<comment> \<open>the scope of the full diff: \<open>["--", pathspec] if pathspec else []\<close>\<close>
  "diff_scope pathspec = (if pathspec \<noteq> [] then [''--'', pathspec] else [])"

definition analyze_steps ::
  "env \<Rightarrow> string option \<Rightarrow> string \<Rightarrow> bool \<Rightarrow> int \<Rightarrow> string \<Rightarrow> json run" where
  \<comment> \<open>steps 2 to 6 in the working directory found by step 1\<close>
  "analyze_steps E working_dir base_branch include_diff max_diff_lines pathspec =
     and_then (run_git E working_dir [''--version'']) (\<lambda>_.
     and_then (run_git E working_dir [''rev-parse'', ''--is-inside-work-tree'']) (\<lambda>_.
     and_then (run_git E working_dir
                ([''diff'', ''--name-status'', range_spec base_branch] @ extra pathspec)) (\<lambda>ns.
     let changed_files = parse_name_status (stdout ns) in
     and_then (run_git E working_dir
                ([''diff'', ''--shortstat'', range_spec base_branch] @ extra pathspec)) (\<lambda>ss.
     let result = [(''base_branch'', JStr base_branch),
                   (''changed_files'', changed_files_json changed_files),
                   (''summary'', summary_json (parse_shortstat (stdout ss)))]
     in
     if include_diff then
       and_then (run_git E working_dir ([''diff'', range_spec base_branch] @ diff_scope pathspec))
         (\<lambda>fd. let (d, t) = bound_diff max_diff_lines (stdout fd)
               in returns (JObj (result @ [(''diff'', JStr d), (''truncated'', JBool t)])))
     else returns (JObj result)))))"

definition git_failed_doc :: "string list \<Rightarrow> string \<Rightarrow> json" where
  "git_failed_doc cmd err =
     JObj [(''error'', JStr ''git_failed''), (''cmd'', JArr (map JStr cmd)), (''stderr'', JStr (strip err))]"

definition git_not_found_doc :: json where
  "git_not_found_doc =
     JObj [(''error'', JStr ''git_not_found''), (''hint'', JStr ''Git is not installed or not in PATH.'')]"

fun handle_exn :: "exn \<Rightarrow> exn + json" where
  \<comment> \<open>the two \<open>except\<close> clauses of the operation; any other exception leaves it\<close>
  "handle_exn (CalledProcessError cmd err) = Inr (git_failed_doc cmd err)"
| "handle_exn FileNotFoundError = Inr git_not_found_doc"
| "handle_exn e = Inl e"

definition analyze_file_changes_run ::
  "env \<Rightarrow> string \<Rightarrow> bool \<Rightarrow> int \<Rightarrow> bool \<Rightarrow> string \<Rightarrow> (exn + json) \<times> call_log" where
  \<comment> \<open>the operation with the log of the git calls it made. \<open>Inr\<close> holds the document given
     to \<open>json.dumps\<close>, \<open>Inl\<close> the exception that leaves the operation\<close>
  "analyze_file_changes_run E base_branch include_diff max_diff_lines cwd_from_root pathspec =
     (case resolve_working_dir E cwd_from_root of
        Inl e \<Rightarrow> (handle_exn e, [])
      | Inr working_dir \<Rightarrow>
          (case analyze_steps E working_dir base_branch include_diff max_diff_lines pathspec [] of
             (Inl e, log) \<Rightarrow> (handle_exn e, log)
           | (Inr doc, log) \<Rightarrow> (Inr doc, log)))"

definition analyze_file_changes ::
  "env \<Rightarrow> string \<Rightarrow> bool \<Rightarrow> int \<Rightarrow> bool \<Rightarrow> string \<Rightarrow> exn + json" where
  "analyze_file_changes E base_branch include_diff max_diff_lines cwd_from_root pathspec =
     fst (analyze_file_changes_run E base_branch include_diff max_diff_lines cwd_from_root pathspec)"

definition not_implemented_doc :: "string \<Rightarrow> json" where
  "not_implemented_doc hint = JObj [(''error'', JStr ''Not implemented yet''), (''hint'', JStr hint)]"

definition get_pr_templates :: "(string \<times> string) list \<Rightarrow> json" where
  \<comment> \<open>the argument is the content of \<open>TEMPLATES_DIR\<close> (file name, text), which the body
     of the source never reads\<close>
  "get_pr_templates templates_dir = not_implemented_doc ''Read templates from TEMPLATES_DIR''"

definition suggest_template :: "string \<Rightarrow> string \<Rightarrow> json" where
  "suggest_template changes_summary change_type = not_implemented_doc ''Map change_type to templates''"

fun field :: "string \<Rightarrow> json \<Rightarrow> json option" where
  \<comment> \<open>the value under a key of a document\<close>
  "field k (JObj kvs) = map_of kvs k"
| "field k _ = None"


section \<open>Vocabulary of the statements\<close>

text \<open>
  The argument vectors of the three \<open>diff\<close> calls, the fields every success document
  starts with, and what tells a success document from an error document.
\<close>

definition name_status_argv :: "string \<Rightarrow> string \<Rightarrow> string list" where
  "name_status_argv base_branch pathspec =
     ''git'' # [''diff'', ''--name-status'', range_spec base_branch] @ extra pathspec"

definition shortstat_argv :: "string \<Rightarrow> string \<Rightarrow> string list" where
  "shortstat_argv base_branch pathspec =
     ''git'' # [''diff'', ''--shortstat'', range_spec base_branch] @ extra pathspec"

definition base_fields :: "string \<Rightarrow> string \<Rightarrow> string \<Rightarrow> (string \<times> json) list" where
  "base_fields base_branch ns ss =
     [(''base_branch'', JStr base_branch),
      (''changed_files'', changed_files_json (parse_name_status ns)),
      (''summary'', summary_json (parse_shortstat ss))]"

definition full_diff_argv :: "string \<Rightarrow> string \<Rightarrow> string list" where
  "full_diff_argv base_branch pathspec = ''git'' # [''diff'', range_spec base_branch] @ diff_scope pathspec"

definition is_success :: "json \<Rightarrow> bool" where
  "is_success doc \<longleftrightarrow> field ''error'' doc = None"

subsection \<open>Name-and-status listings\<close>

definition row_line :: "string list \<Rightarrow> string" where
  \<comment> \<open>one line of the listing: its columns separated by tabs\<close>
  "row_line cols = join [CHR 0x09] cols"

definition listing :: "string list list \<Rightarrow> string" where
  \<comment> \<open>a listing: each row on a line of its own, ended by a line feed\<close>
  "listing rows = concat (map (\<lambda>cols. row_line cols @ [CHR 0x0A]) rows)"

definition plain_row :: "string list \<Rightarrow> bool" where
  \<comment> \<open>at least one column, and no tab and no line boundary inside a column\<close>
  "plain_row cols \<longleftrightarrow>
     cols \<noteq> [] \<and> (\<forall>col \<in> set cols. \<forall>c \<in> set col. c \<noteq> CHR 0x09 \<and> \<not> is_linebreak c)"

definition blank :: "string \<Rightarrow> bool" where
  "blank line \<longleftrightarrow> (\<forall>c \<in> set line. isspace c)"

subsection \<open>Statistics lines\<close>

text \<open>
  The grammar of the condensed statistics line: up to three clauses, "N file(s) changed",
  "N insertion(s)(+)" and "N deletion(s)(-)", each present or absent, each in singular or
  plural.
\<close>

definition clause_str :: "nat \<Rightarrow> string \<Rightarrow> bool \<Rightarrow> string \<Rightarrow> string" where
  \<comment> \<open>one clause of the statistics line: the count, the noun in singular or plural, the rest\<close>
  "clause_str n noun plural rest = str_nat n @ '' '' @ noun @ (if plural then ''s'' else []) @ rest"

fun clause_opt :: "string \<Rightarrow> string \<Rightarrow> (nat \<times> bool) option \<Rightarrow> string list" where
  "clause_opt noun rest None = []"
| "clause_opt noun rest (Some (n, plural)) = [clause_str n noun plural rest]"

definition shortstat_body ::
  "(nat \<times> bool) option \<Rightarrow> (nat \<times> bool) option \<Rightarrow> (nat \<times> bool) option \<Rightarrow> string" where
  \<comment> \<open>the clauses that are present, in the order of git, separated by a comma and a space\<close>
  "shortstat_body f i d =
     join '', '' (clause_opt ''file'' '' changed'' f @ clause_opt ''insertion'' ''(+)'' i @
                  clause_opt ''deletion'' ''(-)'' d)"

fun count_in :: "(nat \<times> bool) option \<Rightarrow> int" where
  "count_in None = 0"
| "count_in (Some (n, plural)) = int n"

subsection \<open>Sample environments\<close>

definition example_git :: "string option \<Rightarrow> string list \<Rightarrow> proc_outcome" where
  "example_git wd argv =
     (if argv = [''git'', ''diff'', ''--name-status'', ''main...HEAD''] then
        Exited 0 (''M'' @ [CHR 0x09] @ ''server.py'' @ [CHR 0x0A] @
                  ''R100'' @ [CHR 0x09] @ ''old.txt'' @ [CHR 0x09] @ ''new.txt'' @ [CHR 0x0A]) []
      else if argv = [''git'', ''diff'', ''--shortstat'', ''main...HEAD''] then
        Exited 0 ('' 2 files changed, 3 insertions(+)'' @ [CHR 0x0A]) []
      else if argv = [''git'', ''diff'', ''main...HEAD''] then
        Exited 0 (''a'' @ [CHR 0x0A] @ ''b'' @ [CHR 0x0A] @ ''c'' @ [CHR 0x0A]) []
      else Exited 0 [] [])"

definition example_env :: env where
  "example_env = \<lparr>roots_lookup = Inr [Some ''/repo''], git_exec = example_git\<rparr>"

definition example_base :: "(string \<times> json) list" where
  "example_base =
     [(''base_branch'', JStr ''main''),
      (''changed_files'',
         JArr [JObj [(''path'', JStr ''server.py''), (''status'', JStr ''M'')],
               JObj [(''path'', JStr ''new.txt''), (''status'', JStr ''R100'')]]),
      (''summary'', JObj [(''files'', JInt 2), (''insertions'', JInt 3), (''deletions'', JInt 0)])]"

definition no_repo_env :: env where
  "no_repo_env = \<lparr>roots_lookup = Inr [],
     git_exec = (\<lambda>wd argv. if argv = [''git'', ''--version''] then Exited 0 ''git version 2.43.0'' []
        else Exited 128 [] (''fatal: not a git repository'' @ [CHR 0x0A]))\<rparr>"

definition undecoded_env :: env where
  \<comment> \<open>outside a repository, with an error message of git that does not decode\<close>
  "undecoded_env = \<lparr>roots_lookup = Inr [],
     git_exec = (\<lambda>wd argv. if argv = [''git'', ''--version''] then Exited 0 ''git version 2.43.0'' []
        else Exited_undecoded 128)\<rparr>"

definition no_git_env :: "exn + string option list \<Rightarrow> env" where
  "no_git_env roots = \<lparr>roots_lookup = roots, git_exec = (\<lambda>wd argv. Not_started FileNotFoundError)\<rparr>"


section \<open>Lines, joins and decimal numerals\<close>

lemma splitlines_from_Nil_iff: "splitlines_from cur s = [] \<longleftrightarrow> cur = [] \<and> s = []"
  by (induction cur s rule: splitlines_from.induct) auto

lemma join_Cons: "join sep (x # xs) = (if xs = [] then x else x @ sep @ join sep xs)"
  by (cases xs) auto

lemma join_snoc: "xs \<noteq> [] \<Longrightarrow> join sep (xs @ [y]) = join sep xs @ sep @ y"
  by (induction xs) (auto simp: join_Cons)

lemma LF_linebreak: "is_linebreak (CHR 0x0A)"
  by (simp add: is_linebreak_def)

lemma splitlines_from_joined:
  assumes "\<forall>c \<in> set s. is_linebreak c \<longrightarrow> c = CHR 0x0A"
  shows "(if s \<noteq> [] \<and> last s = CHR 0x0A then join [CHR 0x0A] (splitlines_from cur s) @ [CHR 0x0A]
          else join [CHR 0x0A] (splitlines_from cur s)) = rev cur @ s"
  using assms
proof (induction s arbitrary: cur)
  case Nil
  then show ?case by simp
next
  case (Cons x xs)
  have tail: "\<forall>c \<in> set xs. is_linebreak c \<longrightarrow> c = CHR 0x0A"
    using Cons.prems by simp
  note IH = Cons.IH [OF tail]
  show ?case
  proof (cases "is_linebreak x")
    case True
    with Cons.prems have x: "x = CHR 0x0A" by simp
    have step: "splitlines_from cur (x # xs) = rev cur # splitlines_from [] xs"
      using x by (simp add: LF_linebreak)
    show ?thesis
    proof (cases "xs = []")
      case True
      then show ?thesis unfolding step using x by simp
    next
      case False
      then have ne: "splitlines_from [] xs \<noteq> []" by (simp add: splitlines_from_Nil_iff)
      have j: "join [CHR 0x0A] (rev cur # splitlines_from [] xs)
                 = rev cur @ [CHR 0x0A] @ join [CHR 0x0A] (splitlines_from [] xs)"
        using ne by (simp add: join_Cons)
      show ?thesis
      proof (cases "last xs = CHR 0x0A")
        case True
        then have "join [CHR 0x0A] (splitlines_from [] xs) @ [CHR 0x0A] = xs"
          using IH [of "[]"] False by simp
        then show ?thesis unfolding step j using True False x by simp
      next
        case nl: False
        then have "join [CHR 0x0A] (splitlines_from [] xs) = xs"
          using IH [of "[]"] by simp
        then show ?thesis unfolding step j using nl False x by simp
      qed
    qed
  next
    case False
    then have nocr: "x \<noteq> CHR 0x0D" and nolf: "x \<noteq> CHR 0x0A" by (auto simp: is_linebreak_def)
    have step: "splitlines_from cur (x # xs) = splitlines_from (x # cur) xs"
      using False nocr by simp
    show ?thesis
    proof (cases "xs \<noteq> [] \<and> last xs = CHR 0x0A")
      case True
      then have "join [CHR 0x0A] (splitlines_from (x # cur) xs) @ [CHR 0x0A] = rev (x # cur) @ xs"
        using IH [of "x # cur"] by simp
      then show ?thesis unfolding step using True by simp
    next
      case nl: False
      then have "join [CHR 0x0A] (splitlines_from (x # cur) xs) = rev (x # cur) @ xs"
        using IH [of "x # cur"] by auto
      then show ?thesis unfolding step using nl nolf by auto
    qed
  qed
qed

lemma splitlines_roundtrip:
  assumes "\<forall>c \<in> set s. is_linebreak c \<longrightarrow> c = CHR 0x0A"
  shows "(if s \<noteq> [] \<and> last s = CHR 0x0A then join [CHR 0x0A] (splitlines s) @ [CHR 0x0A]
          else join [CHR 0x0A] (splitlines s)) = s"
  unfolding splitlines_def using splitlines_from_joined [OF assms, of "[]"]
  by (simp only: rev.simps append_Nil)

lemma splitlines_from_no_break:
  "\<forall>c \<in> set cur. \<not> is_linebreak c \<Longrightarrow> l \<in> set (splitlines_from cur s) \<Longrightarrow> c \<in> set l \<Longrightarrow> \<not> is_linebreak c"
  by (induction cur s rule: splitlines_from.induct) (auto split: if_splits)

lemma splitlines_no_break: "l \<in> set (splitlines s) \<Longrightarrow> c \<in> set l \<Longrightarrow> \<not> is_linebreak c"
  unfolding splitlines_def by (rule splitlines_from_no_break [of "[]"]) auto

lemma splitlines_from_plain:
  "\<forall>c \<in> set l. \<not> is_linebreak c \<Longrightarrow> splitlines_from cur (l @ t) = splitlines_from (rev l @ cur) t"
proof (induction l arbitrary: cur)
  case Nil
  then show ?case by simp
next
  case (Cons x l)
  then have "x \<noteq> CHR 0x0D" by (auto simp: is_linebreak_def)
  then show ?case using Cons by simp
qed

lemma splitlines_from_join:
  assumes "ls \<noteq> []" "\<forall>l \<in> set ls. \<forall>c \<in> set l. \<not> is_linebreak c" "last ls \<noteq> []"
  shows "splitlines_from cur (join [CHR 0x0A] ls) = (rev cur @ hd ls) # tl ls"
  using assms
proof (induction ls arbitrary: cur)
  case Nil
  then show ?case by simp
next
  case (Cons l ls)
  show ?case
  proof (cases "ls = []")
    case True
    then show ?thesis using Cons.prems splitlines_from_plain [of l cur "[]"] by simp
  next
    case False
    then have "splitlines_from [] (join [CHR 0x0A] ls) = (rev [] @ hd ls) # tl ls"
      using Cons.prems by (intro Cons.IH) auto
    then show ?thesis
      using False Cons.prems splitlines_from_plain [of l cur "CHR 0x0A # join [CHR 0x0A] ls"]
      by (simp add: join_Cons LF_linebreak)
  qed
qed

lemma splitlines_join:
  assumes "\<forall>l \<in> set ls. \<forall>c \<in> set l. \<not> is_linebreak c" "ls \<noteq> [] \<longrightarrow> last ls \<noteq> []"
  shows "splitlines (join [CHR 0x0A] ls) = ls"
proof (cases "ls = []")
  case True
  then show ?thesis by (simp add: splitlines_def)
next
  case False
  then show ?thesis using assms splitlines_from_join [of ls "[]"] by (simp add: splitlines_def)
qed

lemma digit_char_isdigit: "k < 10 \<Longrightarrow> isdigit (''0123456789'' ! k)"
proof -
  assume "k < 10"
  then have "k \<in> {0,1,2,3,4,5,6,7,8,9}" by auto
  then show ?thesis by (auto simp: isdigit_def)
qed

lemma digit_val_digit_char: "k < 10 \<Longrightarrow> digit_val (''0123456789'' ! k) = k"
proof -
  assume "k < 10"
  then have "k \<in> {0,1,2,3,4,5,6,7,8,9}" by auto
  then show ?thesis by (auto simp: digit_val_def)
qed

lemma str_nat_digits: "c \<in> set (str_nat n) \<Longrightarrow> isdigit c"
proof (induction n arbitrary: c rule: str_nat.induct)
  case (1 n)
  show ?case
  proof (cases "n < 10")
    case True
    then show ?thesis using 1(2) digit_char_isdigit [of n] by (simp add: str_nat.simps [of n])
  next
    case False
    then have "c \<in> set (str_nat (n div 10)) \<or> c = ''0123456789'' ! (n mod 10)"
      using 1(2) by (auto simp add: str_nat.simps [of n])
    then show ?thesis using 1(1) False digit_char_isdigit [of "n mod 10"] by auto
  qed
qed

lemma str_int_no_break: "c \<in> set (str_int m) \<Longrightarrow> \<not> is_linebreak c"
  by (auto simp: str_int_def is_linebreak_def isdigit_def dest!: str_nat_digits split: if_splits)

lemma marker_split:
  "join [CHR 0x0A] (xs @ [truncation_marker m])
     = join [CHR 0x0A] (xs @ [[], ''--- Diff truncated at '' @ str_int m @ '' lines ---''])"
proof (cases "xs = []")
  case True
  then show ?thesis by (simp add: truncation_marker_def)
next
  case False
  have "join [CHR 0x0A] ((xs @ [[]]) @ [''--- Diff truncated at '' @ str_int m @ '' lines ---''])
          = join [CHR 0x0A] (xs @ [[]]) @ [CHR 0x0A] @ ''--- Diff truncated at '' @ str_int m @ '' lines ---''"
    by (rule join_snoc) simp
  then show ?thesis using False by (simp add: join_snoc truncation_marker_def)
qed

section \<open>Rows and columns of a listing\<close>

lemma strip_Nil_iff: "strip l = [] \<longleftrightarrow> blank l"
proof
  assume "strip l = []"
  then have "dropWhile isspace (rev (dropWhile isspace l)) = []" by (simp add: strip_def)
  then have "\<forall>c \<in> set (dropWhile isspace l). isspace c"
    by (simp add: dropWhile_eq_Nil_conv)
  moreover have "dropWhile isspace l \<noteq> [] \<Longrightarrow> \<not> isspace (hd (dropWhile isspace l))"
    by (rule hd_dropWhile)
  ultimately have "dropWhile isspace l = []"
    by (cases "dropWhile isspace l") auto
  then show "blank l" by (simp add: blank_def dropWhile_eq_Nil_conv)
next
  assume "blank l"
  then have "\<forall>c \<in> set l. isspace c" by (simp add: blank_def)
  then show "strip l = []" by (auto simp: strip_def dest: set_dropWhileD)
qed

lemma set_join: "c \<in> set (join sep xs) \<Longrightarrow> c \<in> set sep \<or> (\<exists>x \<in> set xs. c \<in> set x)"
  by (induction sep xs rule: join.induct) auto

lemma row_line_no_break: "plain_row cols \<Longrightarrow> c \<in> set (row_line cols) \<Longrightarrow> \<not> is_linebreak c"
proof -
  assume p: "plain_row cols" and c: "c \<in> set (row_line cols)"
  from c have "c \<in> set [CHR 0x09] \<or> (\<exists>col \<in> set cols. c \<in> set col)"
    unfolding row_line_def by (rule set_join)
  then show ?thesis
  proof
    assume "c \<in> set [CHR 0x09]"
    then show ?thesis by (simp add: is_linebreak_def)
  next
    assume "\<exists>col \<in> set cols. c \<in> set col"
    then show ?thesis using p by (auto simp: plain_row_def)
  qed
qed

lemma splitlines_from_line:
  assumes "\<forall>c \<in> set l. \<not> is_linebreak c"
  shows "splitlines_from [] (l @ CHR 0x0A # rest) = l # splitlines_from [] rest"
  using splitlines_from_plain [OF assms, of "[]" "CHR 0x0A # rest"]
  by (simp add: LF_linebreak)

lemma splitlines_listing:
  "\<forall>cols \<in> set rows. plain_row cols \<Longrightarrow> splitlines (listing rows) = map row_line rows"
proof (induction rows)
  case Nil
  then show ?case by (simp add: splitlines_def listing_def)
next
  case (Cons cols rows)
  then have "\<forall>c \<in> set (row_line cols). \<not> is_linebreak c"
    using row_line_no_break by auto
  then have "splitlines_from [] (row_line cols @ CHR 0x0A # listing rows)
               = row_line cols # splitlines_from [] (listing rows)"
    by (rule splitlines_from_line)
  then show ?case using Cons by (simp add: splitlines_def listing_def)
qed

lemma split_on_not_Nil: "split_on sep s \<noteq> []"
  by (induction s) auto

lemma split_on_plain:
  "\<forall>c \<in> set col. c \<noteq> sep \<Longrightarrow>
     split_on sep (col @ rest) = (col @ hd (split_on sep rest)) # tl (split_on sep rest)"
  by (induction col) (auto simp: split_on_not_Nil)

lemma split_on_join:
  "cols \<noteq> [] \<Longrightarrow> \<forall>col \<in> set cols. \<forall>c \<in> set col. c \<noteq> sep \<Longrightarrow>
     split_on sep (join [sep] cols) = cols"
proof (induction cols)
  case Nil
  then show ?case by simp
next
  case (Cons col cols)
  show ?case
  proof (cases "cols = []")
    case True
    then show ?thesis using Cons.prems split_on_plain [of col sep "[]"] by simp
  next
    case False
    then have "split_on sep (join [sep] cols) = cols" using Cons by simp
    then show ?thesis
      using False Cons.prems split_on_plain [of col sep "sep # join [sep] cols"]
      by (simp add: join_Cons)
  qed
qed

section \<open>Searching a statistics line\<close>

lemma digit_not_space: "isdigit c \<Longrightarrow> \<not> isspace c"
  by (auto simp: isdigit_def isspace_def)

lemma str_nat_not_Nil [simp]: "str_nat n \<noteq> []"
  by (subst str_nat.simps) simp

lemma foldl_digits_str_nat: "foldl (\<lambda>acc c. 10 * acc + digit_val c) 0 (str_nat n) = n"
proof (induction n rule: str_nat.induct)
  case (1 n)
  show ?case
  proof (cases "n < 10")
    case True
    then show ?thesis by (simp add: str_nat.simps [of n] digit_val_digit_char)
  next
    case False
    then show ?thesis using 1 by (simp add: str_nat.simps [of n] digit_val_digit_char)
  qed
qed

lemma int_of_digits_str_nat: "int_of_digits (str_nat n) = int n"
  by (simp add: int_of_digits_def foldl_digits_str_nat)

lemma search_skip:
  "\<forall>c \<in> set pre. \<not> isdigit c \<Longrightarrow>
     re_search ((Digit, Plus) # ps) (pre @ s) = re_search ((Digit, Plus) # ps) s"
  by (induction pre) auto

lemma match_digit_run:
  assumes "ds \<noteq> []" "\<forall>c \<in> set ds. isdigit c" "rest = [] \<or> \<not> isdigit (hd rest)"
  shows "match_items ((Digit, Plus) # (Space, Plus) # ps) (ds @ rest)
           = map_option (Cons ds) (match_items ((Space, Plus) # ps) rest)"
  using assms
proof (induction ds rule: list_nonempty_induct)
  case (single d)
  have "match_items ((Digit, Plus) # (Space, Plus) # ps) rest = None"
    using single.prems(2) by (cases rest) auto
  then show ?case using single.prems by simp
next
  case (cons d ds)
  then have ih: "match_items ((Digit, Plus) # (Space, Plus) # ps) (ds @ rest)
           = map_option (Cons ds) (match_items ((Space, Plus) # ps) rest)"
    by simp
  obtain d' ds' where ds: "ds = d' # ds'" using cons.hyps by (cases ds) auto
  have "isdigit d'" using cons.prems ds by simp
  then have giveback: "match_items ((Space, Plus) # ps) (ds @ rest) = None"
    using ds digit_not_space by simp
  show ?case
  proof (cases "match_items ((Space, Plus) # ps) rest")
    case None
    then show ?thesis using ih giveback cons.prems by simp
  next
    case (Some r)
    then show ?thesis using ih cons.prems by simp
  qed
qed

lemma search_digit_run_hit:
  assumes "ds \<noteq> []" "\<forall>c \<in> set ds. isdigit c" "rest = [] \<or> \<not> isdigit (hd rest)"
    and "match_items ((Space, Plus) # ps) rest = Some r"
  shows "re_search ((Digit, Plus) # (Space, Plus) # ps) (ds @ rest) = Some (ds # r)"
proof -
  obtain d ds' where ds: "ds = d # ds'" using assms(1) by (cases ds) auto
  have "match_items ((Digit, Plus) # (Space, Plus) # ps) (ds @ rest) = Some (ds # r)"
    using match_digit_run [OF assms(1-3)] assms(4) by simp
  then show ?thesis unfolding ds by simp
qed

lemma search_digit_run_miss:
  assumes "\<forall>c \<in> set ds. isdigit c" "rest = [] \<or> \<not> isdigit (hd rest)"
    and "match_items ((Space, Plus) # ps) rest = None"
  shows "re_search ((Digit, Plus) # (Space, Plus) # ps) (ds @ rest)
           = re_search ((Digit, Plus) # (Space, Plus) # ps) rest"
  using assms(1)
proof (induction ds)
  case Nil
  then show ?case by simp
next
  case (Cons d ds)
  have "match_items ((Digit, Plus) # (Space, Plus) # ps) ((d # ds) @ rest) = None"
    using match_digit_run [of "d # ds" rest ps] Cons.prems assms(2,3) by simp
  then show ?case using Cons by simp
qed

lemma search_clause_miss:
  assumes "\<forall>c \<in> set ds. isdigit c" "b \<noteq> a" "\<not> isspace b" "\<forall>c \<in> set (b # w). \<not> isdigit c"
  shows "re_search ((Digit, Plus) # (Space, Plus) # (Lit a, Once) # ps) (ds @ CHR '' '' # b # w @ rest)
           = re_search ((Digit, Plus) # (Space, Plus) # (Lit a, Once) # ps) rest"
proof -
  let ?re = "(Digit, Plus) # (Space, Plus) # (Lit a, Once) # ps"
  have sp: "isspace (CHR '' '')" by (simp add: isspace_def)
  have nd: "\<not> isdigit (CHR '' '')" by (simp add: isdigit_def)
  have "match_items ((Space, Plus) # (Lit a, Once) # ps) (CHR '' '' # b # w @ rest) = None"
    using assms(2,3) sp by simp
  then have "re_search ?re (ds @ CHR '' '' # b # w @ rest) = re_search ?re (CHR '' '' # b # w @ rest)"
    using search_digit_run_miss [of ds "CHR '' '' # b # w @ rest" "(Lit a, Once) # ps"] assms(1) nd
    by simp
  also have "\<dots> = re_search ?re ((CHR '' '' # b # w) @ rest)" by simp
  also have "\<dots> = re_search ?re rest"
    using assms(4) nd by (intro search_skip) simp
  finally show ?thesis .
qed

lemma count_of_Nil: "count_of ((Digit, Plus) # ps) [] = 0"
  by (simp add: count_of_def)

lemma count_of_skip:
  "\<forall>c \<in> set pre. \<not> isdigit c \<Longrightarrow>
     count_of ((Digit, Plus) # ps) (pre @ s) = count_of ((Digit, Plus) # ps) s"
  by (simp add: count_of_def search_skip)

lemma count_hit_clause:
  assumes "re = (Digit, Plus) # (Space, Plus) # ps"
    and "\<exists>r. match_items ((Space, Plus) # ps)
                (CHR '' '' # noun @ (if plural then ''s'' else []) @ sfx @ rest) = Some r"
  shows "count_of re (clause_str n noun plural sfx @ rest) = int n"
proof -
  from assms(2) obtain r where
    r: "match_items ((Space, Plus) # ps)
          (CHR '' '' # noun @ (if plural then ''s'' else []) @ sfx @ rest) = Some r"
    by blast
  have nd: "\<not> isdigit (CHR '' '')" by (simp add: isdigit_def)
  have "re_search re (str_nat n @ CHR '' '' # noun @ (if plural then ''s'' else []) @ sfx @ rest)
          = Some (str_nat n # r)"
    unfolding assms(1)
    by (rule search_digit_run_hit [OF _ _ _ r]) (simp_all add: nd str_nat_digits)
  then show ?thesis
    by (simp add: count_of_def clause_str_def int_of_digits_str_nat)
qed

lemma count_miss_clause:
  assumes "re = (Digit, Plus) # (Space, Plus) # (Lit a, Once) # ps"
    and "b \<noteq> a" "\<not> isspace b"
    and "\<forall>c \<in> set (b # w @ ''s'' @ sfx). \<not> isdigit c"
  shows "count_of re (clause_str n (b # w) plural sfx @ rest) = count_of re rest"
proof -
  have "re_search re (str_nat n @ CHR '' '' # b # (w @ (if plural then ''s'' else []) @ sfx) @ rest)
          = re_search re rest"
    unfolding assms(1)
    by (rule search_clause_miss) (use assms(2-4) in \<open>auto simp: str_nat_digits\<close>)
  then show ?thesis
    by (simp add: count_of_def clause_str_def)
qed

lemma files_re_form:
  "files_re = (Digit, Plus) # (Space, Plus) # (Lit CHR ''f'', Once) #
     lits ''ile'' @ [(Lit CHR ''s'', Opt), (Space, Plus)] @ lits ''changed''"
  by (simp add: files_re_def lits_def)

lemma insertions_re_form:
  "insertions_re = (Digit, Plus) # (Space, Plus) # (Lit CHR ''i'', Once) #
     lits ''nsertion'' @ [(Lit CHR ''s'', Opt)] @ lits ''(+)''"
  by (simp add: insertions_re_def lits_def)

lemma deletions_re_form:
  "deletions_re = (Digit, Plus) # (Space, Plus) # (Lit CHR ''d'', Once) #
     lits ''eletion'' @ [(Lit CHR ''s'', Opt)] @ lits ''(-)''"
  by (simp add: deletions_re_def lits_def)

lemma count_files:
  "count_of files_re (clause_str n ''file'' plural '' changed'' @ rest) = int n"
  "count_of files_re (clause_str n ''insertion'' plural ''(+)'' @ rest) = count_of files_re rest"
  "count_of files_re (clause_str n ''deletion'' plural ''(-)'' @ rest) = count_of files_re rest"
proof -
  show "count_of files_re (clause_str n ''file'' plural '' changed'' @ rest) = int n"
    by (rule count_hit_clause [OF files_re_form]) (simp add: lits_def isspace_def)
  show "count_of files_re (clause_str n ''insertion'' plural ''(+)'' @ rest) = count_of files_re rest"
    by (rule count_miss_clause [OF files_re_form]) (simp_all add: isspace_def isdigit_def)
  show "count_of files_re (clause_str n ''deletion'' plural ''(-)'' @ rest) = count_of files_re rest"
    by (rule count_miss_clause [OF files_re_form]) (simp_all add: isspace_def isdigit_def)
qed

lemma count_insertions:
  "count_of insertions_re (clause_str n ''file'' plural '' changed'' @ rest) = count_of insertions_re rest"
  "count_of insertions_re (clause_str n ''insertion'' plural ''(+)'' @ rest) = int n"
  "count_of insertions_re (clause_str n ''deletion'' plural ''(-)'' @ rest) = count_of insertions_re rest"
proof -
  show "count_of insertions_re (clause_str n ''file'' plural '' changed'' @ rest) = count_of insertions_re rest"
    by (rule count_miss_clause [OF insertions_re_form]) (simp_all add: isspace_def isdigit_def)
  show "count_of insertions_re (clause_str n ''insertion'' plural ''(+)'' @ rest) = int n"
    by (rule count_hit_clause [OF insertions_re_form]) (simp add: lits_def isspace_def)
  show "count_of insertions_re (clause_str n ''deletion'' plural ''(-)'' @ rest) = count_of insertions_re rest"
    by (rule count_miss_clause [OF insertions_re_form]) (simp_all add: isspace_def isdigit_def)
qed

lemma count_deletions:
  "count_of deletions_re (clause_str n ''file'' plural '' changed'' @ rest) = count_of deletions_re rest"
  "count_of deletions_re (clause_str n ''insertion'' plural ''(+)'' @ rest) = count_of deletions_re rest"
  "count_of deletions_re (clause_str n ''deletion'' plural ''(-)'' @ rest) = int n"
proof -
  show "count_of deletions_re (clause_str n ''file'' plural '' changed'' @ rest) = count_of deletions_re rest"
    by (rule count_miss_clause [OF deletions_re_form]) (simp_all add: isspace_def isdigit_def)
  show "count_of deletions_re (clause_str n ''insertion'' plural ''(+)'' @ rest) = count_of deletions_re rest"
    by (rule count_miss_clause [OF deletions_re_form]) (simp_all add: isspace_def isdigit_def)
  show "count_of deletions_re (clause_str n ''deletion'' plural ''(-)'' @ rest) = int n"
    by (rule count_hit_clause [OF deletions_re_form]) (simp add: lits_def isspace_def)
qed

lemma count_sep:
  "count_of files_re (CHR '','' # CHR '' '' # s) = count_of files_re s"
  "count_of insertions_re (CHR '','' # CHR '' '' # s) = count_of insertions_re s"
  "count_of deletions_re (CHR '','' # CHR '' '' # s) = count_of deletions_re s"
  using count_of_skip [of "'', ''" _ s]
  by (simp_all add: files_re_form insertions_re_form deletions_re_form isdigit_def)

lemma count_empty:
  "count_of files_re [] = 0" "count_of insertions_re [] = 0" "count_of deletions_re [] = 0"
  by (simp_all add: files_re_form insertions_re_form deletions_re_form count_of_Nil)

lemmas count_last =
  count_files [where rest = "[]", simplified count_empty append_Nil2]
  count_insertions [where rest = "[]", simplified count_empty append_Nil2]
  count_deletions [where rest = "[]", simplified count_empty append_Nil2]

lemmas count_rules = count_files count_insertions count_deletions count_sep count_empty count_last

lemma counts_of_body:
  "count_of files_re (shortstat_body f i d) = count_in f"
  "count_of insertions_re (shortstat_body f i d) = count_in i"
  "count_of deletions_re (shortstat_body f i d) = count_in d"
  by (cases f; cases i; cases d; auto simp: shortstat_body_def count_rules)+

lemma clause_str_not_Nil [simp]: "clause_str n noun plural sfx \<noteq> []"
  by (simp add: clause_str_def)

lemma clause_str_hd: "\<not> isspace (hd (clause_str n noun plural sfx))"
proof -
  have "hd (str_nat n) \<in> set (str_nat n)" by simp
  then have "isdigit (hd (str_nat n))" by (rule str_nat_digits)
  then show ?thesis by (simp add: clause_str_def digit_not_space)
qed

lemma clause_str_last:
  "\<not> isspace (last (clause_str n noun plural '' changed''))"
  "\<not> isspace (last (clause_str n noun plural ''(+)''))"
  "\<not> isspace (last (clause_str n noun plural ''(-)''))"
  by (simp_all add: clause_str_def isspace_def)

lemma body_ends:
  "shortstat_body f i d \<noteq> [] \<Longrightarrow>
     \<not> isspace (hd (shortstat_body f i d)) \<and> \<not> isspace (last (shortstat_body f i d))"
  by (cases f; cases i; cases d; auto simp: shortstat_body_def clause_str_hd clause_str_last)

lemma strip_padded:
  assumes "\<forall>c \<in> set pre. isspace c" "\<forall>c \<in> set post. isspace c"
    and "body \<noteq> [] \<Longrightarrow> \<not> isspace (hd body) \<and> \<not> isspace (last body)"
  shows "strip (pre @ body @ post) = body"
proof (cases "body = []")
  case True
  then have "blank (pre @ body @ post)" using assms(1,2) by (auto simp: blank_def)
  then show ?thesis using True strip_Nil_iff by simp
next
  case False
  then obtain x xs where b: "body = x # xs" by (cases body) auto
  with assms(3) have x: "\<not> isspace x" by simp
  have 1: "dropWhile isspace (pre @ body @ post) = body @ post"
    using assms(1) x b by (simp add: dropWhile_append2)
  have "rev body \<noteq> []" using False by simp
  then obtain y ys where r: "rev body = y # ys" by (cases "rev body") auto
  then have "y = last body" using False by (metis last_rev list.sel(1) rev_rev_ident hd_rev)
  with assms(3) False have y: "\<not> isspace y" by simp
  have "\<forall>c \<in> set (rev post). isspace c" using assms(2) by simp
  then have "dropWhile isspace (rev post @ rev body) = dropWhile isspace (rev body)"
    by (intro dropWhile_append2) blast
  then have "dropWhile isspace (rev (body @ post)) = rev body"
    using y r by simp
  then show ?thesis by (simp add: strip_def 1)
qed

section \<open>How a run unfolds\<close>

lemmas run_defs = analyze_file_changes_run_def analyze_steps_def and_then_def run_git_def returns_def Let_def


lemma range_spec_not_option [simp]:
  "range_spec b \<noteq> ''--name-status''" "range_spec b \<noteq> ''--shortstat''"
  "''--name-status'' \<noteq> range_spec b" "''--shortstat'' \<noteq> range_spec b"
  by (auto simp: range_spec_def dest: arg_cong [where f = last])

lemma handle_exn_not_success: "handle_exn e = Inr doc \<Longrightarrow> \<not> is_success doc"
  by (cases e) (auto simp: is_success_def git_failed_doc_def git_not_found_doc_def)

lemma run_git_cases:
  "run_git E wd a log =
     (case git_exec E wd (''git'' # a) of
        Exited rc out err \<Rightarrow>
          if rc = 0 then (Inr \<lparr>args = ''git'' # a, returncode = 0, stdout = out, stderr = err\<rparr>,
                          log @ [(wd, ''git'' # a, Exited 0 out err)])
          else (Inl (CalledProcessError (''git'' # a) err), log @ [(wd, ''git'' # a, Exited rc out err)])
      | Exited_undecoded rc \<Rightarrow> (Inl ValueError, log @ [(wd, ''git'' # a, Exited_undecoded rc)])
      | Not_started e \<Rightarrow> (Inl e, log @ [(wd, ''git'' # a, Not_started e)]))"
  by (simp add: run_git_def Let_def split: proc_outcome.splits)

lemma and_then_Inr:
  "and_then m f log = (Inr d, log'') \<longleftrightarrow> (\<exists>a log'. m log = (Inr a, log') \<and> f a log' = (Inr d, log''))"
  by (auto simp: and_then_def split: prod.splits sum.splits)

lemma run_git_Inr:
  "run_git E wd a log = (Inr cp, log') \<longleftrightarrow>
     (\<exists>out err. git_exec E wd (''git'' # a) = Exited 0 out err \<and>
        cp = \<lparr>args = ''git'' # a, returncode = 0, stdout = out, stderr = err\<rparr> \<and>
        log' = log @ [(wd, ''git'' # a, Exited 0 out err)])"
  by (auto simp: run_git_cases split: proc_outcome.splits)

lemma steps_success:
  "analyze_steps E wd b inc m p [] = (Inr doc, log) \<longleftrightarrow>
     (\<exists>o1 e1 o2 e2 ns e3 ss e4.
        git_exec E wd [''git'', ''--version''] = Exited 0 o1 e1 \<and>
        git_exec E wd [''git'', ''rev-parse'', ''--is-inside-work-tree''] = Exited 0 o2 e2 \<and>
        git_exec E wd (name_status_argv b p) = Exited 0 ns e3 \<and>
        git_exec E wd (shortstat_argv b p) = Exited 0 ss e4 \<and>
        (let log4 = [(wd, [''git'', ''--version''], Exited 0 o1 e1),
                     (wd, [''git'', ''rev-parse'', ''--is-inside-work-tree''], Exited 0 o2 e2),
                     (wd, name_status_argv b p, Exited 0 ns e3),
                     (wd, shortstat_argv b p, Exited 0 ss e4)]
         in if inc then
              (\<exists>raw e5. git_exec E wd (full_diff_argv b p) = Exited 0 raw e5 \<and>
                 doc = JObj (base_fields b ns ss @
                   [(''diff'', JStr (fst (bound_diff m raw))),
                    (''truncated'', JBool (snd (bound_diff m raw)))]) \<and>
                 log = log4 @ [(wd, full_diff_argv b p, Exited 0 raw e5)])
            else doc = JObj (base_fields b ns ss) \<and> log = log4))"
  unfolding analyze_steps_def
  by (cases inc)
    (auto simp: and_then_Inr run_git_Inr returns_def Let_def name_status_argv_def shortstat_argv_def
      full_diff_argv_def base_fields_def case_prod_beta)

lemma run_success:
  "analyze_file_changes_run E b inc m c p = (Inr doc, log) \<and> is_success doc \<longleftrightarrow>
     (\<exists>wd. resolve_working_dir E c = Inr wd \<and> analyze_steps E wd b inc m p [] = (Inr doc, log) \<and> is_success doc)"
  by (auto simp: analyze_file_changes_run_def handle_exn_not_success split: sum.splits prod.splits)

lemma success_document:
  assumes "resolve_working_dir E c = Inr wd"
    and "analyze_file_changes E b inc m c p = Inr doc" and "is_success doc"
  shows "\<exists>ns e3 ss e4.
           git_exec E wd (name_status_argv b p) = Exited 0 ns e3 \<and>
           git_exec E wd (shortstat_argv b p) = Exited 0 ss e4 \<and>
           (if inc then
              (\<exists>raw e5. git_exec E wd (full_diff_argv b p) = Exited 0 raw e5 \<and>
                 doc = JObj (base_fields b ns ss @
                   [(''diff'', JStr (fst (bound_diff m raw))),
                    (''truncated'', JBool (snd (bound_diff m raw)))]))
            else doc = JObj (base_fields b ns ss))"
proof -
  obtain log where "analyze_file_changes_run E b inc m c p = (Inr doc, log)"
    using assms(2) by (cases "analyze_file_changes_run E b inc m c p") (simp add: analyze_file_changes_def)
  with assms(1,3) have "analyze_steps E wd b inc m p [] = (Inr doc, log)"
    using run_success [of E b inc m c p doc log] by auto
  then show ?thesis
    unfolding steps_success by (cases inc) (auto simp: Let_def)
qed

lemma field_base_fields:
  "field ''diff'' (JObj (base_fields b ns ss @ [(''diff'', d), (''truncated'', t)])) = Some d"
  "field ''truncated'' (JObj (base_fields b ns ss @ [(''diff'', d), (''truncated'', t)])) = Some t"
  by (simp_all add: base_fields_def)

lemma success_diff_fields:
  assumes "resolve_working_dir E c = Inr wd"
    and "git_exec E wd (full_diff_argv b p) = Exited 0 raw err"
    and "analyze_file_changes E b True m c p = Inr doc" and "is_success doc"
  shows "field ''diff'' doc = Some (JStr (fst (bound_diff m raw)))"
    and "field ''truncated'' doc = Some (JBool (snd (bound_diff m raw)))"
proof -
  from success_document [OF assms(1,3,4)] assms(2)
  obtain ns ss where doc: "doc = JObj (base_fields b ns ss @
                   [(''diff'', JStr (fst (bound_diff m raw))),
                    (''truncated'', JBool (snd (bound_diff m raw)))])"
    by auto
  show "field ''diff'' doc = Some (JStr (fst (bound_diff m raw)))"
    unfolding doc by (rule field_base_fields)
  show "field ''truncated'' doc = Some (JBool (snd (bound_diff m raw)))"
    unfolding doc by (rule field_base_fields)
qed

lemma example_resolve: "resolve_working_dir example_env True = Inr (Some ''/repo'')"
  by (simp add: resolve_working_dir_def example_env_def)

lemma example_raw:
  "git_exec example_env (Some ''/repo'') (full_diff_argv ''main'' [])
     = Exited 0 ''a\<newline>b\<newline>c\<newline>'' []"
  by (simp add: example_env_def example_git_def full_diff_argv_def range_spec_def diff_scope_def)

lemma example_run_capped:
  "analyze_file_changes example_env ''main'' True 2 True [] =
     Inr (JObj (example_base @
       [(''diff'', JStr ''a\<newline>b\<newline>\<newline>--- Diff truncated at 2 lines ---''),
        (''truncated'', JBool True)]))"
  by code_simp

lemma example_run_whole:
  "analyze_file_changes example_env ''main'' True 500 True [] =
     Inr (JObj (example_base @ [(''diff'', JStr ''a\<newline>b\<newline>c''), (''truncated'', JBool False)]))"
  by code_simp


lemma example_success: "is_success (JObj (example_base @ kvs)) \<longleftrightarrow> map_of kvs ''error'' = None"
  by (simp add: is_success_def example_base_def)

section \<open>The template operations\<close>

text \<open>
  Claim C5: for a template directory of K files, \<open>get_pr_templates\<close> returns K descriptors,
  one per file, each with the full text of its file. The docstring of the source says so
  ("List available PR templates with their content"), but the body is the placeholder: on a
  directory with one file it returns the document \<open>{error: "Not implemented yet", hint}\<close>,
  which has no \<open>templates\<close> field.
\<close>

theorem get_pr_templates_not_implemented:
  "get_pr_templates [(''bug.md'', ''## Bug fix'')] =
     JObj [(''error'', JStr ''Not implemented yet''), (''hint'', JStr ''Read templates from TEMPLATES_DIR'')]
   \<and> field ''templates'' (get_pr_templates [(''bug.md'', ''## Bug fix'')]) = None"
  by (simp add: get_pr_templates_def not_implemented_doc_def)

text \<open>
  Claim C6: for every pair (changes_summary, change_type), \<open>suggest_template\<close> returns a
  document \<open>{template, content, rationale}\<close> and never an error. The docstring of the source
  promises a suggested template, but the body is the placeholder: for the change type
  \<open>hotfix\<close> it returns the document \<open>{error: "Not implemented yet", hint}\<close>, which has no
  \<open>template\<close> field.
\<close>

theorem suggest_template_not_implemented:
  "suggest_template ''Fixes a crash on empty input'' ''hotfix'' =
     JObj [(''error'', JStr ''Not implemented yet''), (''hint'', JStr ''Map change_type to templates'')]
   \<and> field ''template'' (suggest_template ''Fixes a crash on empty input'' ''hotfix'') = None"
  by (simp add: suggest_template_def not_implemented_doc_def)

section \<open>Errors of \<open>analyze_file_changes\<close>\<close>

text \<open>
  Claim C7, as amended: when step 1 yields a working directory (no exception other than
  \<open>ValueError\<close> and \<open>AttributeError\<close> comes out of the root lookup) and starting git
  raises \<open>FileNotFoundError\<close>, the operation returns exactly the document
  \<open>{error: "git_not_found", hint: "Git is not installed or not in PATH."}\<close>, and no
  exception leaves it.
\<close>

theorem git_not_found_document:
  assumes "resolve_working_dir E c = Inr wd"
    and "git_exec E wd [''git'', ''--version''] = Not_started FileNotFoundError"
  shows "analyze_file_changes E b inc m c p =
           Inr (JObj [(''error'', JStr ''git_not_found''),
                      (''hint'', JStr ''Git is not installed or not in PATH.'')])"
  using assms
  by (simp add: analyze_file_changes_def analyze_file_changes_run_def analyze_steps_def and_then_def
      run_git_cases git_not_found_doc_def)

theorem git_not_found_document_witness:
  "analyze_file_changes (no_git_env (Inr [])) ''main'' True 500 True []
     = Inr (JObj [(''error'', JStr ''git_not_found''),
                  (''hint'', JStr ''Git is not installed or not in PATH.'')])"
proof -
  have 1: "resolve_working_dir (no_git_env (Inr [])) True = Inr None"
    by (simp add: resolve_working_dir_def no_git_env_def)
  have 2: "git_exec (no_git_env (Inr [])) None [''git'', ''--version''] = Not_started FileNotFoundError"
    by (simp add: no_git_env_def)
  show ?thesis using git_not_found_document [OF 1 2] by simp
qed

text \<open>
  As stated for every call, the claim fails: with \<open>cwd_from_root\<close> true and a root lookup
  that raises an exception outside the two handled classes, that exception leaves the
  operation before git is tried.
\<close>

theorem git_not_found_counterexample:
  "analyze_file_changes (no_git_env (Inl (OtherError ''McpError''))) ''main'' True 500 True []
     = Inl (OtherError ''McpError'')"
  by (simp add: analyze_file_changes_def analyze_file_changes_run_def resolve_working_dir_def no_git_env_def)

text \<open>
  Claim C8, as amended: whenever a git call made by the operation exits with a non-zero
  code and its captured output decodes as text, the operation returns the document
  \<open>{error: "git_failed", cmd, stderr}\<close> with the argument vector of that call and its
  standard error text (stripped of surrounding white space); the result is a document, not
  an exception.
\<close>

theorem git_failed_document:
  assumes "(wd, argv, Exited rc out err) \<in> set (snd (analyze_file_changes_run E b inc m c p))"
    and "rc \<noteq> 0"
  shows "analyze_file_changes E b inc m c p =
           Inr (JObj [(''error'', JStr ''git_failed''), (''cmd'', JArr (map JStr argv)),
                      (''stderr'', JStr (strip err))])"
  using assms
  by (auto simp: analyze_file_changes_def run_defs git_failed_doc_def
      split: sum.splits proc_outcome.splits if_splits prod.splits)

theorem git_failed_document_witness:
  "analyze_file_changes no_repo_env ''main'' True 500 True [] =
     Inr (JObj [(''error'', JStr ''git_failed''),
                (''cmd'', JArr [JStr ''git'', JStr ''rev-parse'', JStr ''--is-inside-work-tree'']),
                (''stderr'', JStr ''fatal: not a git repository'')])"
proof -
  have 1: "(None, [''git'', ''rev-parse'', ''--is-inside-work-tree''],
            Exited 128 [] (''fatal: not a git repository'' @ [CHR 0x0A]))
           \<in> set (snd (analyze_file_changes_run no_repo_env ''main'' True 500 True []))"
    by code_simp
  have 2: "(128::int) \<noteq> 0" by simp
  have 3: "strip (''fatal: not a git repository'' @ [CHR 0x0A]) = ''fatal: not a git repository''"
    by code_simp
  show ?thesis using git_failed_document [OF 1 2] 3 by simp
qed

text \<open>
  As stated for every non-zero exit, the claim fails: when the output of the failing call
  does not decode, \<open>subprocess.run\<close> raises \<open>UnicodeDecodeError\<close> instead of
  \<open>CalledProcessError\<close>; no handler of the operation names it, and it leaves the operation.
\<close>

theorem git_failed_counterexample:
  "analyze_file_changes_run undecoded_env ''main'' True 500 True [] =
     (Inl ValueError,
      [(None, [''git'', ''--version''], Exited 0 ''git version 2.43.0'' []),
       (None, [''git'', ''rev-parse'', ''--is-inside-work-tree''], Exited_undecoded 128)])
   \<and> analyze_file_changes undecoded_env ''main'' True 500 True [] = Inl ValueError
   \<and> (128::int) \<noteq> 0"
  by (simp add: analyze_file_changes_def analyze_file_changes_run_def resolve_working_dir_def
      undecoded_env_def analyze_steps_def and_then_def run_git_cases)

section \<open>The working directory\<close>

text \<open>
  Claim C9, as amended: with \<open>cwd_from_root\<close> true, if the root lookup raises
  \<open>ValueError\<close> or \<open>AttributeError\<close>, or returns no root, the operation uses the
  directory of the process and behaves exactly as with \<open>cwd_from_root\<close> false; if the
  lookup returns a non-empty list, every git call runs in the path of the first root.
\<close>

theorem working_dir_resolution:
  "(roots_lookup E = Inl ValueError \<or> roots_lookup E = Inl AttributeError \<or> roots_lookup E = Inr [] \<longrightarrow>
      resolve_working_dir E True = Inr None \<and>
      analyze_file_changes_run E b inc m True p = analyze_file_changes_run E b inc m False p)
   \<and> (roots_lookup E = Inr (r # rs) \<longrightarrow>
        resolve_working_dir E True = Inr r \<and>
        (\<forall>call \<in> set (snd (analyze_file_changes_run E b inc m True p)). fst call = r))"
proof (intro conjI impI)
  assume "roots_lookup E = Inl ValueError \<or> roots_lookup E = Inl AttributeError \<or> roots_lookup E = Inr []"
  then show "resolve_working_dir E True = Inr None"
    by (auto simp: resolve_working_dir_def)
  then show "analyze_file_changes_run E b inc m True p = analyze_file_changes_run E b inc m False p"
    by (simp add: analyze_file_changes_run_def resolve_working_dir_def)
next
  assume "roots_lookup E = Inr (r # rs)"
  then show 1: "resolve_working_dir E True = Inr r"
    by (simp add: resolve_working_dir_def)
  show "\<forall>call \<in> set (snd (analyze_file_changes_run E b inc m True p)). fst call = r"
    using 1
    by (auto simp: run_defs split: sum.splits proc_outcome.splits if_splits prod.splits)
qed

theorem working_dir_resolution_witness:
  "resolve_working_dir (no_git_env (Inl ValueError)) True = Inr None
   \<and> analyze_file_changes (no_git_env (Inl ValueError)) ''main'' True 500 True [] = Inr git_not_found_doc
   \<and> resolve_working_dir example_env True = Inr (Some ''/repo'')
   \<and> set (map fst (snd (analyze_file_changes_run example_env ''main'' True 500 True [])))
       = {Some ''/repo''}"
proof -
  have 1: "roots_lookup (no_git_env (Inl ValueError)) = Inl ValueError" by (simp add: no_git_env_def)
  have 2: "roots_lookup example_env = Inr (Some ''/repo'' # [])" by (simp add: example_env_def)
  have 3: "analyze_file_changes_run (no_git_env (Inl ValueError)) ''main'' True 500 False []
            = (Inr git_not_found_doc, [(None, [''git'', ''--version''], Not_started FileNotFoundError)])"
    by (simp add: analyze_file_changes_run_def resolve_working_dir_def no_git_env_def
        analyze_steps_def and_then_def run_git_cases)
  have 4: "snd (analyze_file_changes_run example_env ''main'' True 500 True []) \<noteq> []"
    by code_simp
  have 5: "set (map fst (snd (analyze_file_changes_run example_env ''main'' True 500 True [])))
       = {Some ''/repo''}"
    using working_dir_resolution [where E = example_env and r = "Some ''/repo''" and rs = "[]"
          and b = "''main''" and inc = True and m = 500 and p = "[]"] 2 4
    by (cases "snd (analyze_file_changes_run example_env ''main'' True 500 True [])") auto
  show ?thesis
    using working_dir_resolution [where E = "no_git_env (Inl ValueError)" and b = "''main''"
          and inc = True and m = 500 and p = "[]"]
      working_dir_resolution [where E = example_env and r = "Some ''/repo''" and rs = "[]"
          and b = "''main''" and inc = True and m = 500 and p = "[]"] 1 2 3 5
    by (simp add: analyze_file_changes_def)
qed

text \<open>
  As stated for every exception of the lookup, the claim fails: the handler names two
  classes only, and any other exception leaves the operation.
\<close>

theorem working_dir_counterexample:
  "resolve_working_dir (no_git_env (Inl (OtherError ''McpError''))) True = Inl (OtherError ''McpError'')
   \<and> analyze_file_changes (no_git_env (Inl (OtherError ''McpError''))) ''main'' False 500 True []
       = Inl (OtherError ''McpError'')"
  by (simp add: analyze_file_changes_def analyze_file_changes_run_def resolve_working_dir_def no_git_env_def)

section \<open>The bounded diff\<close>

text \<open>
  Claim C1, as amended: in a successful call with \<open>include_diff\<close> true, where \<open>raw\<close> is
  the output of the diff call and L its number of lines, \<open>truncated\<close> is true exactly when
  L exceeds \<open>max_diff_lines\<close>; and if \<open>0 \<le> max_diff_lines < L\<close>, the returned diff is the
  first \<open>max_diff_lines\<close> raw lines and the marker element, joined by line feeds. The marker
  element itself starts with a line feed, so the returned text has \<open>max_diff_lines + 2\<close>
  lines: the kept lines, an empty line and the marker text.
\<close>

theorem diff_truncation:
  assumes "resolve_working_dir E c = Inr wd"
    and "git_exec E wd (full_diff_argv b p) = Exited 0 raw err"
    and "analyze_file_changes E b True m c p = Inr doc" and "is_success doc"
  shows "field ''truncated'' doc = Some (JBool (int (length (splitlines raw)) > m))
    \<and> (0 \<le> m \<and> m < int (length (splitlines raw)) \<longrightarrow>
         (\<exists>d. field ''diff'' doc = Some (JStr d) \<and>
              d = join [CHR 0x0A] (take (nat m) (splitlines raw) @
                    [[CHR 0x0A] @ ''--- Diff truncated at '' @ str_int m @ '' lines ---'']) \<and>
              splitlines d = take (nat m) (splitlines raw) @
                    [[], ''--- Diff truncated at '' @ str_int m @ '' lines ---'']))"
proof -
  have "snd (bound_diff m raw) = (int (length (splitlines raw)) > m)"
    by (simp add: bound_diff_def Let_def)
  then have t: "field ''truncated'' doc = Some (JBool (int (length (splitlines raw)) > m))"
    using success_diff_fields(2) [OF assms] by simp
  note d = success_diff_fields(1) [OF assms]
  {
    assume m: "0 \<le> m" "m < int (length (splitlines raw))"
    let ?kept = "take (nat m) (splitlines raw)"
    let ?text = "''--- Diff truncated at '' @ str_int m @ '' lines ---''"
    have v: "fst (bound_diff m raw) = join [CHR 0x0A] (?kept @ [truncation_marker m])"
      using m by (simp add: bound_diff_def Let_def py_slice_to_def)
    have plain: "\<forall>l \<in> set (?kept @ [[], ?text]). \<forall>c \<in> set l. \<not> is_linebreak c"
    proof (intro ballI)
      fix l c assume l: "l \<in> set (?kept @ [[], ?text])" and c: "c \<in> set l"
      from l consider "l \<in> set (splitlines raw)" | "l = []" | "l = ?text"
        by (auto dest: in_set_takeD)
      then show "\<not> is_linebreak c"
      proof cases
        case 1
        then show ?thesis using c splitlines_no_break by blast
      next
        case 2
        then show ?thesis using c by simp
      next
        case 3
        then have "c \<in> set ''--- Diff truncated at '' \<or> c \<in> set (str_int m) \<or> c \<in> set '' lines ---''"
          using c by auto
        then show ?thesis using str_int_no_break [of c m] by (auto simp: is_linebreak_def)
      qed
    qed
    have "splitlines (join [CHR 0x0A] (?kept @ [[], ?text])) = ?kept @ [[], ?text]"
      by (rule splitlines_join [OF plain]) simp
    then have "splitlines (fst (bound_diff m raw)) = ?kept @ [[], ?text]"
      by (simp add: v marker_split)
    with v d have "\<exists>d. field ''diff'' doc = Some (JStr d) \<and>
              d = join [CHR 0x0A] (?kept @ [[CHR 0x0A] @ ?text]) \<and>
              splitlines d = ?kept @ [[], ?text]"
      by (simp add: truncation_marker_def)
  }
  with t show ?thesis by blast
qed

theorem diff_truncation_witness:
  "field ''truncated''
      (JObj (example_base @
         [(''diff'', JStr ''a\<newline>b\<newline>\<newline>--- Diff truncated at 2 lines ---''),
          (''truncated'', JBool True)])) = Some (JBool True)
   \<and> splitlines ''a\<newline>b\<newline>\<newline>--- Diff truncated at 2 lines ---''
       = [''a'', ''b'', [], ''--- Diff truncated at 2 lines ---'']"
proof -
  have s: "is_success (JObj (example_base @
         [(''diff'', JStr ''a\<newline>b\<newline>\<newline>--- Diff truncated at 2 lines ---''),
          (''truncated'', JBool True)]))"
    by (simp add: example_success)
  have l: "splitlines ''a\<newline>b\<newline>c\<newline>'' = [''a'', ''b'', ''c'']" by code_simp
  have n: "str_int 2 = ''2''" by code_simp
  have j: "join ''\<newline>'' [''a'', ''b'', ''\<newline>--- Diff truncated at 2 lines ---'']
             = ''a\<newline>b\<newline>\<newline>--- Diff truncated at 2 lines ---''" by simp
  show ?thesis
    using diff_truncation [OF example_resolve example_raw example_run_capped s] l n j
    by (simp add: example_base_def)
qed

text \<open>
  As stated the claim fails: with a cap of 2 on a raw diff of 3 lines the returned diff has
  4 lines, not 3.
\<close>

theorem diff_truncation_counterexample:
  "analyze_file_changes example_env ''main'' True 2 True [] =
     Inr (JObj (example_base @
       [(''diff'', JStr ''a\<newline>b\<newline>\<newline>--- Diff truncated at 2 lines ---''),
        (''truncated'', JBool True)]))
   \<and> git_exec example_env (Some ''/repo'') (full_diff_argv ''main'' [])
        = Exited 0 ''a\<newline>b\<newline>c\<newline>'' []
   \<and> length (splitlines ''a\<newline>b\<newline>c\<newline>'') = 3
   \<and> length (splitlines ''a\<newline>b\<newline>\<newline>--- Diff truncated at 2 lines ---'') = 4"
proof -
  have "length (splitlines ''a\<newline>b\<newline>c\<newline>'') = 3" by code_simp
  moreover have "length (splitlines ''a\<newline>b\<newline>\<newline>--- Diff truncated at 2 lines ---'') = 4"
    by code_simp
  ultimately show ?thesis using example_run_capped example_raw by simp
qed

text \<open>
  Claim C2, as amended: in a successful call with \<open>include_diff\<close> true, if the raw diff
  has at most \<open>max_diff_lines\<close> lines, then \<open>truncated\<close> is false and the returned diff is
  the raw lines joined by line feeds, with none after the last line; when the line feed is
  the only line boundary in the raw diff, that is the raw text without its final line feed
  (the raw text itself when it does not end in one).
\<close>

theorem diff_below_cap:
  assumes "resolve_working_dir E c = Inr wd"
    and "git_exec E wd (full_diff_argv b p) = Exited 0 raw err"
    and "analyze_file_changes E b True m c p = Inr doc" and "is_success doc"
    and "int (length (splitlines raw)) \<le> m"
  shows "field ''truncated'' doc = Some (JBool False)
    \<and> field ''diff'' doc = Some (JStr (join [CHR 0x0A] (splitlines raw)))
    \<and> ((\<forall>c \<in> set raw. is_linebreak c \<longrightarrow> c = CHR 0x0A) \<longrightarrow>
         (if raw \<noteq> [] \<and> last raw = CHR 0x0A
          then join [CHR 0x0A] (splitlines raw) @ [CHR 0x0A]
          else join [CHR 0x0A] (splitlines raw)) = raw)"
proof -
  have b: "bound_diff m raw = (join [CHR 0x0A] (splitlines raw), False)"
    using assms(5) by (simp add: bound_diff_def Let_def)
  have "field ''truncated'' doc = Some (JBool False)"
    using success_diff_fields(2) [OF assms(1-4)] b by simp
  moreover have "field ''diff'' doc = Some (JStr (join [CHR 0x0A] (splitlines raw)))"
    using success_diff_fields(1) [OF assms(1-4)] b by simp
  moreover have "(\<forall>c \<in> set raw. is_linebreak c \<longrightarrow> c = CHR 0x0A) \<longrightarrow>
         (if raw \<noteq> [] \<and> last raw = CHR 0x0A
          then join [CHR 0x0A] (splitlines raw) @ [CHR 0x0A]
          else join [CHR 0x0A] (splitlines raw)) = raw"
    using splitlines_roundtrip [of raw] by blast
  ultimately show ?thesis by blast
qed

theorem diff_below_cap_witness:
  "field ''truncated'' (JObj (example_base @ [(''diff'', JStr ''a\<newline>b\<newline>c''), (''truncated'', JBool False)]))
     = Some (JBool False)
   \<and> field ''diff'' (JObj (example_base @ [(''diff'', JStr ''a\<newline>b\<newline>c''), (''truncated'', JBool False)]))
     = Some (JStr (join ''\<newline>'' (splitlines ''a\<newline>b\<newline>c\<newline>'')))
   \<and> join ''\<newline>'' (splitlines ''a\<newline>b\<newline>c\<newline>'') @ ''\<newline>'' = ''a\<newline>b\<newline>c\<newline>''"
proof -
  have s: "is_success (JObj (example_base @ [(''diff'', JStr ''a\<newline>b\<newline>c''), (''truncated'', JBool False)]))"
    by (simp add: example_success)
  have l: "length (splitlines ''a\<newline>b\<newline>c\<newline>'') = 3" by code_simp
  then have c: "int (length (splitlines ''a\<newline>b\<newline>c\<newline>'')) \<le> 500" by simp
  have k: "\<forall>c \<in> set ''a\<newline>b\<newline>c\<newline>''. is_linebreak c \<longrightarrow> c = CHR 0x0A"
    by (simp add: is_linebreak_def)
  have e: "''a\<newline>b\<newline>c\<newline>'' \<noteq> [] \<and> last ''a\<newline>b\<newline>c\<newline>'' = CHR 0x0A" by simp
  from diff_below_cap [OF example_resolve example_raw example_run_whole s c]
  show ?thesis using k e by presburger
qed

text \<open>
  As stated the claim fails: a raw diff that ends in a line feed, as the output of git
  does, is returned without it.
\<close>

theorem diff_below_cap_counterexample:
  "analyze_file_changes example_env ''main'' True 500 True [] =
     Inr (JObj (example_base @ [(''diff'', JStr ''a\<newline>b\<newline>c''), (''truncated'', JBool False)]))
   \<and> git_exec example_env (Some ''/repo'') (full_diff_argv ''main'' [])
        = Exited 0 ''a\<newline>b\<newline>c\<newline>'' []
   \<and> int (length (splitlines ''a\<newline>b\<newline>c\<newline>'')) \<le> 500
   \<and> ''a\<newline>b\<newline>c'' \<noteq> ''a\<newline>b\<newline>c\<newline>''"
proof -
  have "length (splitlines ''a\<newline>b\<newline>c\<newline>'') = 3" by code_simp
  then show ?thesis using example_run_whole example_raw by simp
qed

section \<open>Calls that do not ask for the diff\<close>



section \<open>The changed files\<close>

text \<open>
  Claim C4, as amended: for every name-and-status listing (rows of tab-separated columns,
  one row per line), \<open>changed_files\<close> has one record per non-blank line, in the order of the
  listing; the status of a record is the first column of its line as it stands, and its
  path is the last column, also on rename and copy lines with two path columns. The
  status is not checked against a set of codes and need not be one letter.
\<close>

theorem changed_files_of_listing:
  assumes "\<forall>cols \<in> set rows. plain_row cols"
  shows "parse_name_status (listing rows) =
           map (\<lambda>cols. \<lparr>path = last cols, status = hd cols\<rparr>)
             (filter (\<lambda>cols. \<not> blank (row_line cols)) rows)
    \<and> length (parse_name_status (listing rows)) = length (filter (\<lambda>cols. \<not> blank (row_line cols)) rows)"
proof -
  have cols: "split_on (CHR 0x09) (row_line cols) = cols" if "cols \<in> set rows" for cols
    using that assms split_on_join [of cols "CHR 0x09"] by (auto simp: plain_row_def row_line_def)
  have "parse_name_status (listing rows) =
          map (\<lambda>line. \<lparr>path = last (split_on (CHR 0x09) line), status = hd (split_on (CHR 0x09) line)\<rparr>)
            (filter (\<lambda>line. \<not> blank line) (map row_line rows))"
    unfolding parse_name_status_def splitlines_listing [OF assms] strip_Nil_iff Let_def ..
  also have "\<dots> = map (\<lambda>cols. \<lparr>path = last cols, status = hd cols\<rparr>)
             (filter (\<lambda>cols. \<not> blank (row_line cols)) rows)"
    unfolding filter_map comp_def map_map
    by (rule map_cong [OF refl]) (simp add: cols)
  finally show ?thesis by simp
qed

theorem changed_files_of_listing_witness:
  "parse_name_status
     (listing [[''M'', ''server.py''], [[]], [''R100'', ''old.txt'', ''new.txt'']]) =
     [\<lparr>path = ''server.py'', status = ''M''\<rparr>, \<lparr>path = ''new.txt'', status = ''R100''\<rparr>]
   \<and> length (parse_name_status
        (listing [[''M'', ''server.py''], [[]], [''R100'', ''old.txt'', ''new.txt'']])) = 2"
proof -
  have p: "\<forall>cols \<in> set [[''M'', ''server.py''], [[]], [''R100'', ''old.txt'', ''new.txt'']]. plain_row cols"
    by (simp add: plain_row_def is_linebreak_def)
  have b: "filter (\<lambda>cols. \<not> blank (row_line cols))
             [[''M'', ''server.py''], [[]], [''R100'', ''old.txt'', ''new.txt'']]
           = [[''M'', ''server.py''], [''R100'', ''old.txt'', ''new.txt'']]"
    by (simp add: blank_def row_line_def isspace_def)
  show ?thesis using changed_files_of_listing [OF p] b by simp
qed

text \<open>
  As stated the claim fails: on a rename line git writes the letter with a similarity
  score, and the record gets that whole column as status.
\<close>

theorem changed_files_status_counterexample:
  "parse_name_status (''R100'' @ [CHR 0x09] @ ''old.txt'' @ [CHR 0x09] @ ''new.txt'' @ [CHR 0x0A])
     = [\<lparr>path = ''new.txt'', status = ''R100''\<rparr>]
   \<and> length ''R100'' = 4"
proof -
  have "parse_name_status (''R100'' @ [CHR 0x09] @ ''old.txt'' @ [CHR 0x09] @ ''new.txt'' @ [CHR 0x0A])
     = [\<lparr>path = ''new.txt'', status = ''R100''\<rparr>]"
    by code_simp
  then show ?thesis by simp
qed

section \<open>The summary\<close>

text \<open>
  Claim C3: for every condensed statistics line, whatever clauses it has, in singular or
  in plural, and whatever white space surrounds it, the three counts are extracted each on
  its own: a present clause gives its number and an absent clause gives 0, and nothing
  fails. The two lines of the specification are instances: the first parses to files 3,
  insertions 20, deletions 5, and the second, with a singular form and no insertion
  clause, to files 1, insertions 0, deletions 4.
\<close>

theorem shortstat_clauses:
  assumes "\<forall>c \<in> set pre. isspace c" and "\<forall>c \<in> set post. isspace c"
  shows "parse_shortstat (pre @ shortstat_body f i d @ post) =
           \<lparr>files = count_in f, insertions = count_in i, deletions = count_in d\<rparr>"
proof -
  have "strip (pre @ shortstat_body f i d @ post) = shortstat_body f i d"
    using assms body_ends by (intro strip_padded) auto
  then show ?thesis by (simp add: parse_shortstat_def counts_of_body)
qed

theorem shortstat_clauses_witness:
  "parse_shortstat '' 3 files changed, 20 insertions(+), 5 deletions(-)'' =
     \<lparr>files = 3, insertions = 20, deletions = 5\<rparr>
   \<and> parse_shortstat '' 1 file changed, 4 deletions(-)'' =
     \<lparr>files = 1, insertions = 0, deletions = 4\<rparr>"
proof -
  have sp: "\<forall>c \<in> set '' ''. isspace c" by (simp add: isspace_def)
  have no: "\<forall>c \<in> set []. isspace c" by simp
  have 1: "'' '' @ shortstat_body (Some (3, True)) (Some (20, True)) (Some (5, True)) @ []
             = '' 3 files changed, 20 insertions(+), 5 deletions(-)''"
    by code_simp
  have 2: "'' '' @ shortstat_body (Some (1, False)) None (Some (4, True)) @ []
             = '' 1 file changed, 4 deletions(-)''"
    by code_simp
  show ?thesis
    using shortstat_clauses [OF sp no, of "Some (3, True)" "Some (20, True)" "Some (5, True)"]
      shortstat_clauses [OF sp no, of "Some (1, False)" None "Some (4, True)"]
    unfolding 1 2 by simp
qed

end
